theory Spec2Isabelle
  imports Main
begin

section \<open>The free store, the console and the suite counter\<close>

text \<open>
  The program of \<^verbatim>\<open>main.cpp\<close> keeps its test cases on the free store and hands
  them around as \<^verbatim>\<open>TestCaseBase*\<close>. The abstract class \<^verbatim>\<open>TestCaseBase\<close> has two
  concrete classes; an object of the free store is a value of the datatype below, whose
  constructor is the dynamic type of the object. The fields are set by the constructors
  of the classes and never written afterwards.

  Sizes and indices of vectors (\<^verbatim>\<open>size_t\<close>, 64 bits) are modelled by \<open>nat\<close>, and
  values of type \<^verbatim>\<open>int\<close> (32 bits) by \<open>int\<close>. Where the program converts between
  the two, in \<^verbatim>\<open>getTestCount\<close>, in the constructor of \<^verbatim>\<open>Submission\<close> and in the loop
  test of \<^verbatim>\<open>checkSolution\<close>, the conversion is written out with its wrap-around. The
  complexity level is only compared and printed; the suite counter and the number of
  passed tests are only incremented, and stay in the range of \<^verbatim>\<open>int\<close> as long as
  fewer than \<open>2^31\<close> suites are constructed.
\<close>

datatype TestCaseBase =
    is_TestCase: TestCase (input: string) (expected: string)
  | is_AdvancedTestCase: AdvancedTestCase (input: string) (expected: string) (complexityLevel: int)

text \<open>A pointer \<^verbatim>\<open>TestCaseBase*\<close> is null or the address of a cell of the free store.\<close>

datatype ptr = nullptr | Addr nat

text \<open>
  What the C++ standard leaves undefined is an error value of the model: reading or
  deleting through a pointer whose object is gone (or never was), reading through the
  null pointer, and indexing a vector out of its range. So is the exception
  \<^verbatim>\<open>std::length_error\<close> that \<^verbatim>\<open>vector::resize\<close> throws, which nothing in the program
  catches.
\<close>

datatype error = NullPointer | DanglingPointer | OutOfRange | LengthError

text \<open>
  The conversion of a \<^verbatim>\<open>size_t\<close> to \<^verbatim>\<open>int\<close> keeps the low 32 bits and reads them
  as a signed number; the conversion of an \<^verbatim>\<open>int\<close> to \<^verbatim>\<open>size_t\<close> is modulo
  \<open>2^64\<close>.
\<close>

definition size_t_to_int :: "nat \<Rightarrow> int" where
  "size_t_to_int n =
     (let m = int n mod 2 ^ 32 in if m < 2 ^ 31 then m else m - 2 ^ 32)"

definition int_to_size_t :: "int \<Rightarrow> nat" where
  "int_to_size_t i = nat (i mod 2 ^ 64)"

text \<open>
  The state outside the objects the functions are called on: the free store (cell \<open>a\<close>
  holds the object at address \<open>a\<close>, or \<open>None\<close> once it is deleted), the static
  member \<^verbatim>\<open>TestSuite::totalTestSuitesCreated\<close>, and the lines written to \<^verbatim>\<open>cout\<close>.
\<close>

record world =
  heap :: "TestCaseBase option list"
  totalTestSuitesCreated :: int
  cout :: "string list"

definition lookup :: "world \<Rightarrow> nat \<Rightarrow> TestCaseBase option" where
  "lookup w a = (if a < length (heap w) then heap w ! a else None)"

fun deref :: "world \<Rightarrow> ptr \<Rightarrow> error + TestCaseBase" where
  "deref w nullptr = Inl NullPointer"
| "deref w (Addr a) =
     (case lookup w a of None \<Rightarrow> Inl DanglingPointer | Some obj \<Rightarrow> Inr obj)"

text \<open>\<^verbatim>\<open>new\<close> takes a cell that no object has had; \<^verbatim>\<open>delete\<close> of the null pointer does nothing.\<close>

definition new :: "TestCaseBase \<Rightarrow> world \<Rightarrow> ptr \<times> world" where
  "new obj w = (Addr (length (heap w)), w\<lparr>heap := heap w @ [Some obj]\<rparr>)"

fun delete :: "ptr \<Rightarrow> world \<Rightarrow> error + world" where
  "delete nullptr w = Inr w"
| "delete (Addr a) w =
     (case lookup w a of
        None \<Rightarrow> Inl DanglingPointer
      | Some obj \<Rightarrow> Inr (w\<lparr>heap := (heap w)[a := None]\<rparr>))"

text \<open>\<^verbatim>\<open>cout << n\<close> for an \<^verbatim>\<open>int\<close>: the decimal digits, after a minus sign when negative.\<close>

fun digits :: "nat \<Rightarrow> string" where
  "digits n =
     (if n < 10 then [char_of (48 + n)]
      else digits (n div 10) @ [char_of (48 + n mod 10)])"

declare digits.simps [simp del]

definition show_int :: "int \<Rightarrow> string" where
  "show_int i = (if i < 0 then CHR ''-'' # digits (nat (- i)) else digits (nat i))"

section \<open>Test cases\<close>

text \<open>
  \<^verbatim>\<open>TestCase::runTest\<close> (lines 32-34) and \<^verbatim>\<open>AdvancedTestCase::runTest\<close> (lines 51-54).
  Both are member functions of an object \<open>this\<close>; the second writes its line and then
  calls the first on the same object.
\<close>

definition TestCase_runTest :: "TestCaseBase \<Rightarrow> world \<Rightarrow> bool \<times> world" where
  "TestCase_runTest this w = (input this = expected this, w)"

definition AdvancedTestCase_runTest :: "TestCaseBase \<Rightarrow> world \<Rightarrow> bool \<times> world" where
  "AdvancedTestCase_runTest this w =
     (let w1 = w\<lparr>cout := cout w @
                  [''Running advanced test with complexity level: '' @
                   show_int (complexityLevel this)]\<rparr>;
          (b, w2) = TestCase_runTest this w1
      in (b \<and> 2 < complexityLevel this, w2))"

text \<open>The virtual call \<^verbatim>\<open>test.runTest()\<close>: the dynamic type selects the body.\<close>

fun runTest :: "TestCaseBase \<Rightarrow> world \<Rightarrow> bool \<times> world" where
  "runTest (TestCase i e) w = TestCase_runTest (TestCase i e) w"
| "runTest (AdvancedTestCase i e l) w = AdvancedTestCase_runTest (AdvancedTestCase i e l) w"

text \<open>\<^verbatim>\<open>clone\<close> (lines 37-39 and 57-59): a new object of the same class from the fields.\<close>

definition TestCase_clone :: "TestCaseBase \<Rightarrow> world \<Rightarrow> ptr \<times> world" where
  "TestCase_clone this w = new (TestCase (input this) (expected this)) w"

definition AdvancedTestCase_clone :: "TestCaseBase \<Rightarrow> world \<Rightarrow> ptr \<times> world" where
  "AdvancedTestCase_clone this w =
     new (AdvancedTestCase (input this) (expected this) (complexityLevel this)) w"

fun clone :: "TestCaseBase \<Rightarrow> world \<Rightarrow> ptr \<times> world" where
  "clone (TestCase i e) w = TestCase_clone (TestCase i e) w"
| "clone (AdvancedTestCase i e l) w = AdvancedTestCase_clone (AdvancedTestCase i e l) w"

section \<open>Test suites\<close>

text \<open>
  A \<^verbatim>\<open>TestSuite\<close> object is its vector of pointers. A member function that changes
  the object it is called on takes the object and returns it changed.
\<close>

record TestSuite =
  tests :: "ptr list"

text \<open>The default constructor (lines 69-71).\<close>

definition TestSuite_ctor :: "world \<Rightarrow> TestSuite \<times> world" where
  "TestSuite_ctor w =
     (\<lparr>tests = []\<rparr>, w\<lparr>totalTestSuitesCreated := totalTestSuitesCreated w + 1\<rparr>)"

definition addTest :: "TestSuite \<Rightarrow> ptr \<Rightarrow> TestSuite" where
  "addTest this test = this\<lparr>tests := tests this @ [test]\<rparr>"

definition getTests :: "TestSuite \<Rightarrow> ptr list" where
  "getTests this = tests this"

text \<open>\<^verbatim>\<open>getTestCount\<close> (lines 84-86) returns \<^verbatim>\<open>tests.size()\<close> as an \<^verbatim>\<open>int\<close>.\<close>

definition getTestCount :: "TestSuite \<Rightarrow> int" where
  "getTestCount this = size_t_to_int (length (tests this))"

definition getTotalTestSuitesCreated :: "world \<Rightarrow> int" where
  "getTotalTestSuitesCreated w = totalTestSuitesCreated w"

text \<open>
  The loop \<^verbatim>\<open>for (test : tests) delete test;\<close> of the assignment operator (lines 95-97)
  and of the destructor (lines 114-116).
\<close>

fun delete_tests :: "ptr list \<Rightarrow> world \<Rightarrow> error + world" where
  "delete_tests [] w = Inr w"
| "delete_tests (test # rest) w =
     (case delete test w of Inl e \<Rightarrow> Inl e | Inr w' \<Rightarrow> delete_tests rest w')"

text \<open>
  The loop \<^verbatim>\<open>for (test : other.tests) tests.push_back(test->clone());\<close> of the
  assignment operator (lines 99-101) and of the copy constructor (lines 108-110); the
  second argument is the vector \<^verbatim>\<open>tests\<close> being filled.
\<close>

fun push_back_clones :: "ptr list \<Rightarrow> ptr list \<Rightarrow> world \<Rightarrow> error + ptr list \<times> world" where
  "push_back_clones [] ts w = Inr (ts, w)"
| "push_back_clones (test # rest) ts w =
     (case deref w test of
        Inl e \<Rightarrow> Inl e
      | Inr obj \<Rightarrow>
          (case clone obj w of (p, w') \<Rightarrow> push_back_clones rest (ts @ [p]) w'))"

text \<open>
  The assignment operator (lines 93-104). Its test \<^verbatim>\<open>this != &other\<close> compares the
  addresses of the two suites, which their values do not determine: each suite comes
  with its address. When the addresses are equal the two are one object.
\<close>

definition operator_assign ::
  "nat \<times> TestSuite \<Rightarrow> nat \<times> TestSuite \<Rightarrow> world \<Rightarrow> error + TestSuite \<times> world" where
  "operator_assign this other w =
     (if fst this \<noteq> fst other then
        (case delete_tests (tests (snd this)) w of
           Inl e \<Rightarrow> Inl e
         | Inr w1 \<Rightarrow>
             (case push_back_clones (tests (snd other)) [] w1 of
                Inl e \<Rightarrow> Inl e
              | Inr (ts, w2) \<Rightarrow> Inr ((snd this)\<lparr>tests := ts\<rparr>, w2)))
      else Inr (snd this, w))"

text \<open>The copy constructor (lines 107-111). It does not touch the counter.\<close>

definition TestSuite_copy :: "TestSuite \<Rightarrow> world \<Rightarrow> error + TestSuite \<times> world" where
  "TestSuite_copy other w =
     (case push_back_clones (tests other) [] w of
        Inl e \<Rightarrow> Inl e
      | Inr (ts, w') \<Rightarrow> Inr (\<lparr>tests = ts\<rparr>, w'))"

text \<open>The destructor (lines 113-117).\<close>

definition TestSuite_dtor :: "TestSuite \<Rightarrow> world \<Rightarrow> error + world" where
  "TestSuite_dtor this w = delete_tests (tests this) w"

text \<open>\<^verbatim>\<open>shallowCopy\<close> (lines 120-122): the vector of pointers is assigned, nothing else.\<close>

definition shallowCopy :: "TestSuite \<Rightarrow> TestSuite \<Rightarrow> TestSuite" where
  "shallowCopy this other = this\<lparr>tests := tests other\<rparr>"

section \<open>Task, UserSolution, ExecutionResult, Submission\<close>

record Task =
  description :: string
  testSuite :: TestSuite

text \<open>The constructor (lines 134-135) copy-constructs the member \<^verbatim>\<open>testSuite\<close>.\<close>

definition Task_ctor :: "string \<Rightarrow> TestSuite \<Rightarrow> world \<Rightarrow> error + Task \<times> world" where
  "Task_ctor desc suite w =
     (case TestSuite_copy suite w of
        Inl e \<Rightarrow> Inl e
      | Inr (s, w') \<Rightarrow> Inr (\<lparr>description = desc, testSuite = s\<rparr>, w'))"

definition getDescription :: "Task \<Rightarrow> string" where
  "getDescription this = description this"

definition getTestSuite :: "Task \<Rightarrow> TestSuite" where
  "getTestSuite this = testSuite this"

record UserSolution =
  solutionCode :: string

definition getSolutionCode :: "UserSolution \<Rightarrow> string" where
  "getSolutionCode this = solutionCode this"

record ExecutionResult =
  actualOutput :: string
  isPassed :: bool

definition ExecutionResult_ctor :: ExecutionResult where
  "ExecutionResult_ctor = \<lparr>actualOutput = [], isPassed = False\<rparr>"

definition setActualOutput :: "ExecutionResult \<Rightarrow> string \<Rightarrow> ExecutionResult" where
  "setActualOutput this output = this\<lparr>actualOutput := output\<rparr>"

definition getActualOutput :: "ExecutionResult \<Rightarrow> string" where
  "getActualOutput this = actualOutput this"

definition setIsPassed :: "ExecutionResult \<Rightarrow> bool \<Rightarrow> ExecutionResult" where
  "setIsPassed this passed = this\<lparr>isPassed := passed\<rparr>"

definition getIsPassed :: "ExecutionResult \<Rightarrow> bool" where
  "getIsPassed this = isPassed this"

record Submission =
  solution :: UserSolution
  results :: "ExecutionResult list"
  totalPassed :: int

text \<open>
  The constructor (lines 194-197). \<^verbatim>\<open>results.resize(testCount)\<close> converts the
  \<^verbatim>\<open>int\<close> to \<^verbatim>\<open>size_t\<close>. A negative count becomes a size of at least
  \<open>2^64 - 2^31\<close>, more than \<^verbatim>\<open>max_size()\<close> of any vector, and \<^verbatim>\<open>resize\<close> throws
  \<^verbatim>\<open>std::length_error\<close>; otherwise it fills the vector with default results.
\<close>

definition Submission_ctor :: "UserSolution \<Rightarrow> int \<Rightarrow> error + Submission" where
  "Submission_ctor userSolution testCount =
     (if testCount < 0 then Inl LengthError
      else Inr \<lparr>solution = userSolution,
                 results = replicate (int_to_size_t testCount) ExecutionResult_ctor,
                 totalPassed = 0\<rparr>)"

definition setTotalPassed :: "Submission \<Rightarrow> int \<Rightarrow> Submission" where
  "setTotalPassed this passed = this\<lparr>totalPassed := passed\<rparr>"

definition getTotalPassed :: "Submission \<Rightarrow> int" where
  "getTotalPassed this = totalPassed this"

definition getResults :: "Submission \<Rightarrow> ExecutionResult list" where
  "getResults this = results this"

definition getSolution :: "Submission \<Rightarrow> UserSolution" where
  "getSolution this = solution this"

section \<open>The runner\<close>

text \<open>
  \<^verbatim>\<open>runTestCase\<close> (lines 217-222). The reference \<^verbatim>\<open>test\<close> is bound by the caller; the
  function calls \<^verbatim>\<open>test.runTest()\<close> on line 219 and again on line 220.
\<close>

definition runTestCase :: "UserSolution \<Rightarrow> TestCaseBase \<Rightarrow> world \<Rightarrow> ExecutionResult \<times> world" where
  "runTestCase sol test w =
     (let result = ExecutionResult_ctor;
          (b1, w1) = runTest test w;
          result = setActualOutput result (if b1 then ''Passed'' else ''Failed'');
          (b2, w2) = runTest test w1;
          result = setIsPassed result b2
      in (result, w2))"

text \<open>
  The loop of \<^verbatim>\<open>checkSolution\<close> (lines 228-235), from index \<open>i\<close> on, with the
  submission and the local \<^verbatim>\<open>totalPassed\<close> as they are on entry to the iteration.
  The loop test compares the \<^verbatim>\<open>size_t\<close> index with the \<^verbatim>\<open>int\<close> count, which is
  converted to \<^verbatim>\<open>size_t\<close> for it. \<^verbatim>\<open>getTests()[i]\<close> and \<^verbatim>\<open>getResults()[i]\<close> are
  unchecked in the source.
\<close>

function checkSolution_loop ::
  "UserSolution \<Rightarrow> Task \<Rightarrow> nat \<Rightarrow> Submission \<Rightarrow> int \<Rightarrow> world \<Rightarrow>
     error + Submission \<times> int \<times> world" where
  "checkSolution_loop sol task i submission passed w =
     (if i < int_to_size_t (getTestCount (getTestSuite task)) then
        (if length (getTests (getTestSuite task)) \<le> i then Inl OutOfRange
         else
           (case deref w (getTests (getTestSuite task) ! i) of
              Inl e \<Rightarrow> Inl e
            | Inr test \<Rightarrow>
                (case runTestCase sol test w of
                   (result, w') \<Rightarrow>
                     (if length (getResults submission) \<le> i then Inl OutOfRange
                      else
                        checkSolution_loop sol task (Suc i)
                          (submission\<lparr>results := (results submission)[i := result]\<rparr>)
                          (if getIsPassed result then passed + 1 else passed)
                          w'))))
      else Inr (submission, passed, w))"
  by pat_completeness auto
termination
  by (relation "measure (\<lambda>(sol, task, i, submission, passed, w).
        int_to_size_t (getTestCount (getTestSuite task)) - i)") auto

declare checkSolution_loop.simps [simp del]

text \<open>\<^verbatim>\<open>checkSolution\<close> (lines 225-238).\<close>

definition checkSolution :: "UserSolution \<Rightarrow> Task \<Rightarrow> world \<Rightarrow> error + Submission \<times> world" where
  "checkSolution sol task w =
     (case Submission_ctor sol (getTestCount (getTestSuite task)) of
        Inl e \<Rightarrow> Inl e
      | Inr submission0 \<Rightarrow>
          (case checkSolution_loop sol task 0 submission0 0 w of
             Inl e \<Rightarrow> Inl e
           | Inr (submission, passed, w') \<Rightarrow> Inr (setTotalPassed submission passed, w')))"

section \<open>Notions for stating the properties\<close>

text \<open>
  A pointer is live when it is the address of an object that exists. The objects of a
  vector of pointers, read through the pointers, are its contents. What one call of
  \<open>runTest\<close> returns and what it writes are read off a call in the world of a
  process that has just started.
\<close>

fun live :: "world \<Rightarrow> ptr \<Rightarrow> bool" where
  "live w nullptr = False"
| "live w (Addr a) = (lookup w a \<noteq> None)"

definition contents :: "world \<Rightarrow> ptr list \<Rightarrow> (error + TestCaseBase) list" where
  "contents w ps = map (deref w) ps"

text \<open>Static initialisation (line 125): the counter is 0; no object, no output yet.\<close>

definition initial_world :: world where
  "initial_world = \<lparr>heap = [], totalTestSuitesCreated = 0, cout = []\<rparr>"

definition passes :: "TestCaseBase \<Rightarrow> bool" where
  "passes t = fst (runTest t initial_world)"

definition emitted :: "TestCaseBase \<Rightarrow> string list" where
  "emitted t = cout (snd (runTest t initial_world))"

definition verdict :: "TestCaseBase \<Rightarrow> ExecutionResult" where
  "verdict t = fst (runTestCase \<lparr>solutionCode = []\<rparr> t initial_world)"

text \<open>
  A world for examples: the two test cases of \<^verbatim>\<open>main\<close> (lines 242-243) and one
  advanced test case are on the free store, and one suite has been constructed. The task
  of \<^verbatim>\<open>main\<close> owns the first two, a second task owns the advanced one.
\<close>

definition example_world :: world where
  "example_world =
     \<lparr>heap = [Some (TestCase ''input1'' ''input1''),
              Some (TestCase ''input2'' ''expected2''),
              Some (AdvancedTestCase ''x'' ''x'' 3)],
      totalTestSuitesCreated = 1,
      cout = []\<rparr>"

definition example_suite :: TestSuite where
  "example_suite = \<lparr>tests = [Addr 0, Addr 1]\<rparr>"

definition example_task :: Task where
  "example_task = \<lparr>description = ''Example Task'', testSuite = \<lparr>tests = [Addr 0, Addr 1]\<rparr>\<rparr>"

definition advanced_task :: Task where
  "advanced_task = \<lparr>description = ''Advanced Task'', testSuite = \<lparr>tests = [Addr 2]\<rparr>\<rparr>"

definition example_solution :: UserSolution where
  "example_solution = \<lparr>solutionCode = ''user_solution_code''\<rparr>"

section \<open>Facts about the model\<close>

subsection \<open>Running a test\<close>

lemma runTest_eq: "runTest t w = (passes t, w\<lparr>cout := cout w @ emitted t\<rparr>)"
  by (cases t)
     (simp_all add: passes_def emitted_def initial_world_def TestCase_runTest_def
        AdvancedTestCase_runTest_def)

lemma emitted_TestCase: "emitted (TestCase i e) = []"
  by (simp add: emitted_def initial_world_def TestCase_runTest_def)

lemma emitted_AdvancedTestCase:
  "emitted (AdvancedTestCase i e l) =
     [''Running advanced test with complexity level: '' @ show_int l]"
  by (simp add: emitted_def initial_world_def TestCase_runTest_def AdvancedTestCase_runTest_def)

lemma runTestCase_eq:
  "runTestCase sol t w =
     (\<lparr>actualOutput = (if passes t then ''Passed'' else ''Failed''), isPassed = passes t\<rparr>,
      w\<lparr>cout := cout w @ emitted t @ emitted t\<rparr>)"
  by (simp add: runTestCase_def runTest_eq ExecutionResult_ctor_def setActualOutput_def
        setIsPassed_def)

lemma clone_new: "clone obj w = new obj w"
  by (cases obj) (simp_all add: TestCase_clone_def AdvancedTestCase_clone_def)

lemma deref_cout [simp]: "deref (w\<lparr>cout := c\<rparr>) p = deref w p"
  by (cases p) (simp_all add: lookup_def)

lemma live_deref: "live w p \<longleftrightarrow> (\<exists>obj. deref w p = Inr obj)"
  by (cases p) (auto split: option.splits)

lemma contents_cout [simp]: "contents (w\<lparr>cout := c\<rparr>) ps = contents w ps"
  by (simp add: contents_def)

lemma contents_nth:
  assumes "contents w ps = map Inr objs" and "i < length objs"
  shows "length ps = length objs" and "deref w (ps ! i) = Inr (objs ! i)"
proof -
  from assms(1) have "length (contents w ps) = length (map Inr objs :: (error + TestCaseBase) list)"
    by simp
  then show len: "length ps = length objs" by (simp add: contents_def)
  from assms(1) have "contents w ps ! i = (map Inr objs :: (error + TestCaseBase) list) ! i"
    by simp
  with assms(2) len show "deref w (ps ! i) = Inr (objs ! i)"
    by (simp add: contents_def)
qed

lemma verdict_eq:
  "verdict t = \<lparr>actualOutput = (if passes t then ''Passed'' else ''Failed''), isPassed = passes t\<rparr>"
  by (simp add: verdict_def runTestCase_eq)

lemma size_t_to_int_small: "n < 2 ^ 31 \<Longrightarrow> size_t_to_int n = int n"
  by (simp add: size_t_to_int_def)

lemma int_to_size_t_small: "n < 2 ^ 31 \<Longrightarrow> int_to_size_t (int n) = n"
  by (simp add: int_to_size_t_def)

lemma getTestCount_small:
  assumes "length (tests s) < 2 ^ 31"
  shows "getTestCount s = int (length (tests s))"
    and "int_to_size_t (getTestCount s) = length (tests s)"
  using assms by (simp_all add: getTestCount_def size_t_to_int_small int_to_size_t_small)

lemma checkSolution_loop_eq:
  assumes "contents w (tests (testSuite task)) = map Inr objs"
      and "length (results sub) = length objs"
      and "i \<le> length objs"
      and "length objs < 2 ^ 31"
  shows "checkSolution_loop sol task i sub passed w =
     Inr (sub\<lparr>results := take i (results sub) @ map verdict (drop i objs)\<rparr>,
          passed + int (length (filter passes (drop i objs))),
          w\<lparr>cout := cout w @ concat (map (\<lambda>t. emitted t @ emitted t) (drop i objs))\<rparr>)"
  using assms
proof (induction "length objs - i" arbitrary: i sub passed w)
  case 0
  then have "i = length objs" by simp
  moreover have "length (tests (testSuite task)) = length objs"
    using "0.prems"(1) by (metis contents_def length_map)
  ultimately show ?case
    using "0.prems"(2,4)
    by (subst checkSolution_loop.simps) (simp add: getTestCount_small int_to_size_t_small getTestSuite_def)
next
  case (Suc n)
  then have i: "i < length objs" by simp
  have len: "length (tests (testSuite task)) = length objs"
    and d: "deref w (tests (testSuite task) ! i) = Inr (objs ! i)"
    using contents_nth [OF Suc.prems(1) i] by simp_all
  let ?r = "verdict (objs ! i)"
  let ?w = "w\<lparr>cout := cout w @ emitted (objs ! i) @ emitted (objs ! i)\<rparr>"
  let ?sub = "sub\<lparr>results := (results sub)[i := ?r]\<rparr>"
  let ?p = "if passes (objs ! i) then passed + 1 else passed"
  have step: "checkSolution_loop sol task i sub passed w =
                checkSolution_loop sol task (Suc i) ?sub ?p ?w"
    using i len d Suc.prems(2,4)
    by (subst checkSolution_loop.simps)
       (simp add: getTestCount_small int_to_size_t_small getTestSuite_def getTests_def getResults_def
          getIsPassed_def runTestCase_eq verdict_eq)
  have n: "n = length objs - Suc i" using Suc.hyps(2) by simp
  have ih: "checkSolution_loop sol task (Suc i) ?sub ?p ?w =
     Inr (?sub\<lparr>results := take (Suc i) (results ?sub) @ map verdict (drop (Suc i) objs)\<rparr>,
          ?p + int (length (filter passes (drop (Suc i) objs))),
          ?w\<lparr>cout := cout ?w @ concat (map (\<lambda>t. emitted t @ emitted t) (drop (Suc i) objs))\<rparr>)"
    using Suc.hyps(1) [OF n, of ?w ?sub ?p] Suc.prems i by simp
  have dr: "drop i objs = objs ! i # drop (Suc i) objs"
    using i by (simp add: Cons_nth_drop_Suc)
  have tk: "take (Suc i) ((results sub)[i := ?r]) = take i (results sub) @ [?r]"
    using i Suc.prems(2) by (simp add: take_Suc_conv_app_nth)
  show ?case
    unfolding step ih dr using tk by simp
qed

lemma checkSolution_eq:
  assumes "contents w (tests (testSuite task)) = map Inr objs"
      and "length objs < 2 ^ 31"
  shows "checkSolution sol task w =
     Inr (\<lparr>solution = sol, results = map verdict objs,
           totalPassed = int (length (filter passes objs))\<rparr>,
          w\<lparr>cout := cout w @ concat (map (\<lambda>t. emitted t @ emitted t) objs)\<rparr>)"
proof -
  have len: "length (tests (testSuite task)) = length objs"
    using assms by (metis contents_def length_map)
  let ?sub = "\<lparr>solution = sol, results = replicate (length objs) ExecutionResult_ctor,
               totalPassed = 0\<rparr>"
  have ctor: "Submission_ctor sol (getTestCount (getTestSuite task)) = Inr ?sub"
    using len assms(2) by (simp add: Submission_ctor_def getTestCount_small int_to_size_t_small getTestSuite_def)
  have "length (results ?sub) = length objs" by simp
  from checkSolution_loop_eq [OF assms(1) this _ assms(2), of 0 sol 0]
  show ?thesis
    by (simp add: checkSolution_def setTotalPassed_def ctor)
qed

subsection \<open>The free store under allocation and deletion\<close>

lemma lookup_append:
  "lookup (w\<lparr>heap := heap w @ xs\<rparr>) a =
     (if a < length (heap w) then lookup w a
      else if a < length (heap w) + length xs then xs ! (a - length (heap w)) else None)"
  by (simp add: lookup_def nth_append)

lemma deref_append:
  "deref w p = Inr obj \<Longrightarrow> deref (w\<lparr>heap := heap w @ xs\<rparr>) p = Inr obj"
  by (cases p) (auto simp: lookup_def nth_append split: option.splits if_splits)

lemma contents_append:
  "contents w ps = map Inr objs \<Longrightarrow> contents (w\<lparr>heap := heap w @ xs\<rparr>) ps = map Inr objs"
proof (induction ps arbitrary: objs)
  case Nil
  then show ?case by (simp add: contents_def)
next
  case (Cons p ps)
  then obtain obj objs' where o: "objs = obj # objs'"
    by (cases objs) (auto simp: contents_def)
  with Cons.prems have "deref w p = Inr obj" "contents w ps = map Inr objs'"
    by (simp_all add: contents_def)
  with Cons.IH [of objs'] o show ?case
    by (simp add: contents_def deref_append)
qed

lemma push_back_clones_eq:
  "contents w ps = map Inr objs \<Longrightarrow>
   push_back_clones ps ts w =
     Inr (ts @ map Addr [length (heap w) ..< length (heap w) + length ps],
          w\<lparr>heap := heap w @ map Some objs\<rparr>)"
proof (induction ps arbitrary: ts w objs)
  case Nil
  then show ?case by (simp add: contents_def)
next
  case (Cons p ps)
  then obtain obj objs' where o: "objs = obj # objs'"
    by (cases objs) (auto simp: contents_def)
  with Cons.prems have d: "deref w p = Inr obj" and c: "contents w ps = map Inr objs'"
    by (simp_all add: contents_def)
  let ?w = "w\<lparr>heap := heap w @ [Some obj]\<rparr>"
  have c': "contents ?w ps = map Inr objs'"
    using c by (rule contents_append)
  have u: "[length (heap w) ..< length (heap w) + Suc (length ps)] =
             length (heap w) # [Suc (length (heap w)) ..< Suc (length (heap w)) + length ps]"
    using upt_conv_Cons [of "length (heap w)" "length (heap w) + Suc (length ps)"] by simp
  show ?case
    using Cons.IH [OF c', of "ts @ [Addr (length (heap w))]"] d o u
    by (simp add: clone_new new_def)
qed

lemma delete_fields:
  "delete p w = Inr w' \<Longrightarrow>
     cout w' = cout w \<and> totalTestSuitesCreated w' = totalTestSuitesCreated w
     \<and> length (heap w') = length (heap w)"
  by (cases p) (auto split: option.splits)

lemma delete_frame: "delete p w = Inr w' \<Longrightarrow> q \<noteq> p \<Longrightarrow> deref w' q = deref w q"
  by (cases p; cases q) (auto simp: lookup_def split: option.splits)

lemma delete_dead: "delete p w = Inr w' \<Longrightarrow> \<not> live w q \<Longrightarrow> \<not> live w' q"
  by (cases p; cases q) (auto simp: lookup_def nth_list_update split: option.splits if_splits)

lemma delete_freed: "delete p w = Inr w' \<Longrightarrow> \<not> live w' p"
  by (cases p) (auto simp: lookup_def split: option.splits if_splits)

lemma delete_tests_fields:
  "delete_tests ps w = Inr w' \<Longrightarrow>
     cout w' = cout w \<and> totalTestSuitesCreated w' = totalTestSuitesCreated w
     \<and> length (heap w') = length (heap w)"
proof (induction ps arbitrary: w)
  case Nil
  then show ?case by simp
next
  case (Cons p ps)
  then obtain w1 where "delete p w = Inr w1" "delete_tests ps w1 = Inr w'"
    by (auto split: sum.splits)
  with Cons.IH [of w1] delete_fields [of p w w1] show ?case by simp
qed

lemma delete_tests_frame:
  "delete_tests ps w = Inr w' \<Longrightarrow> q \<notin> set ps \<Longrightarrow> deref w' q = deref w q"
proof (induction ps arbitrary: w)
  case Nil
  then show ?case by simp
next
  case (Cons p ps)
  then obtain w1 where "delete p w = Inr w1" "delete_tests ps w1 = Inr w'"
    by (auto split: sum.splits)
  with Cons.IH [of w1] delete_frame [of p w w1 q] Cons.prems(2) show ?case by simp
qed

lemma delete_tests_dead:
  "delete_tests ps w = Inr w' \<Longrightarrow> \<not> live w q \<Longrightarrow> \<not> live w' q"
proof (induction ps arbitrary: w)
  case Nil
  then show ?case by simp
next
  case (Cons p ps)
  then obtain w1 where "delete p w = Inr w1" "delete_tests ps w1 = Inr w'"
    by (auto split: sum.splits)
  with Cons.IH [of w1] delete_dead [of p w w1 q] Cons.prems(2) show ?case by simp
qed

lemma delete_tests_freed:
  "delete_tests ps w = Inr w' \<Longrightarrow> q \<in> set ps \<Longrightarrow> \<not> live w' q"
proof (induction ps arbitrary: w)
  case Nil
  then show ?case by simp
next
  case (Cons p ps)
  then obtain w1 where w1: "delete p w = Inr w1" "delete_tests ps w1 = Inr w'"
    by (auto split: sum.splits)
  show ?case
  proof (cases "q = p")
    case True
    with w1 delete_freed [of p w w1] delete_tests_dead [of ps w1 w' q] show ?thesis by simp
  next
    case False
    with Cons.prems(2) Cons.IH [OF w1(2)] show ?thesis by simp
  qed
qed

lemma delete_tests_ok:
  "distinct ps \<Longrightarrow> list_all (live w) ps \<Longrightarrow> \<exists>w'. delete_tests ps w = Inr w'"
proof (induction ps arbitrary: w)
  case Nil
  then show ?case by simp
next
  case (Cons p ps)
  from Cons.prems(2) have "live w p" by simp
  then obtain a obj where p: "p = Addr a" and l: "lookup w a = Some obj"
    by (cases p) auto
  let ?w = "w\<lparr>heap := (heap w)[a := None]\<rparr>"
  have d: "delete p w = Inr ?w" using p l by simp
  have "list_all (live ?w) ps"
    unfolding list_all_iff
  proof
    fix q assume q: "q \<in> set ps"
    with Cons.prems have "q \<noteq> p" "live w q" by (auto simp: list_all_iff)
    with delete_frame [OF d, of q] show "live ?w q" by (simp add: live_deref)
  qed
  with Cons.IH [of ?w] Cons.prems(1) d show ?case by simp
qed

lemma all_live_contents:
  "list_all (live w) ps \<longleftrightarrow> (\<exists>objs. contents w ps = map Inr objs)"
proof (induction ps)
  case Nil
  then show ?case by (simp add: contents_def)
next
  case (Cons p ps)
  show ?case
  proof
    assume "list_all (live w) (p # ps)"
    then have "live w p" "list_all (live w) ps" by simp_all
    then obtain obj objs where "deref w p = Inr obj" "contents w ps = map Inr objs"
      using Cons live_deref by blast
    then have "contents w (p # ps) = map Inr (obj # objs)"
      by (simp add: contents_def)
    then show "\<exists>objs. contents w (p # ps) = map Inr objs" ..
  next
    assume "\<exists>objs. contents w (p # ps) = map Inr objs"
    then obtain objs where c: "contents w (p # ps) = map Inr objs" ..
    then obtain obj objs' where "objs = obj # objs'"
      by (cases objs) (auto simp: contents_def)
    with c have "deref w p = Inr obj" "contents w ps = map Inr objs'"
      by (simp_all add: contents_def)
    then have "live w p" "list_all (live w) ps"
      using Cons live_deref by blast+
    then show "list_all (live w) (p # ps)" by simp
  qed
qed

lemma live_in_heap: "live w (Addr a) \<Longrightarrow> a < length (heap w)"
  by (simp add: lookup_def split: if_splits)

lemma contents_clones:
  "contents (w\<lparr>heap := heap w @ map Some objs\<rparr>)
     (map Addr [length (heap w) ..< length (heap w) + length objs]) = map Inr objs"
  by (rule nth_equalityI) (simp_all add: contents_def lookup_append)

lemma TestSuite_copy_eq:
  assumes "contents w (tests S) = map Inr objs"
  shows "TestSuite_copy S w =
     Inr (\<lparr>tests = map Addr [length (heap w) ..< length (heap w) + length objs]\<rparr>,
          w\<lparr>heap := heap w @ map Some objs\<rparr>)"
proof -
  have "length (tests S) = length objs"
    using assms by (metis contents_def length_map)
  with push_back_clones_eq [OF assms, of "[]"] show ?thesis
    by (simp add: TestSuite_copy_def)
qed

lemma clones_fresh:
  assumes "list_all (live w) ps"
  shows "set (map Addr [length (heap w) ..< length (heap w) + k]) \<inter> set ps = {}"
proof -
  { fix a assume "Addr a \<in> set ps"
    with assms have "live w (Addr a)" unfolding list_all_iff by blast
    then have "a < length (heap w)" by (rule live_in_heap) }
  then show ?thesis by fastforce
qed

lemma clones_distinct: "distinct (map Addr [n ..< n + k])"
  by (simp add: distinct_map inj_on_def)

lemma contents_frame:
  "(\<And>p. p \<in> set ps \<Longrightarrow> deref w' p = deref w p) \<Longrightarrow> contents w' ps = contents w ps"
  by (simp add: contents_def)

lemma delete_tests_contents:
  "delete_tests ps w = Inr w' \<Longrightarrow> set qs \<inter> set ps = {} \<Longrightarrow> contents w' qs = contents w qs"
  by (rule contents_frame) (auto dest: delete_tests_frame)

lemma runTestCase_verdict:
  "runTestCase sol t w = (verdict t, w\<lparr>cout := cout w @ emitted t @ emitted t\<rparr>)"
  by (simp add: runTestCase_eq verdict_eq)

lemma checkSolution_loop_step:
  assumes "i < int_to_size_t (getTestCount (getTestSuite task))"
  shows "checkSolution_loop sol task i sub passed w =
     (if length (tests (testSuite task)) \<le> i then Inl OutOfRange
      else
        (case deref w (tests (testSuite task) ! i) of
           Inl e \<Rightarrow> Inl e
         | Inr t \<Rightarrow>
             if length (results sub) \<le> i then Inl OutOfRange
             else checkSolution_loop sol task (Suc i)
                    (sub\<lparr>results := (results sub)[i := verdict t]\<rparr>)
                    (if passes t then passed + 1 else passed)
                    (w\<lparr>cout := cout w @ emitted t @ emitted t\<rparr>)))"
  using assms
  by (subst checkSolution_loop.simps)
     (simp add: getTestSuite_def getTests_def getResults_def
        getIsPassed_def runTestCase_verdict verdict_eq split: sum.splits)

lemma checkSolution_loop_stop:
  assumes "\<not> i < int_to_size_t (getTestCount (getTestSuite task))"
  shows "checkSolution_loop sol task i sub passed w = Inr (sub, passed, w)"
  using assms
  by (subst checkSolution_loop.simps) simp

lemma checkSolution_loop_solution:
  assumes "results sub1 = results sub2"
  shows "map_sum id (\<lambda>(sub, p, w'). (results sub, p, w'))
           (checkSolution_loop s1 task i sub1 passed w) =
         map_sum id (\<lambda>(sub, p, w'). (results sub, p, w'))
           (checkSolution_loop s2 task i sub2 passed w)"
  using assms
proof (induction "int_to_size_t (getTestCount (getTestSuite task)) - i"
         arbitrary: i sub1 sub2 passed w)
  case 0
  then have "\<not> i < int_to_size_t (getTestCount (getTestSuite task))" by simp
  then show ?case using "0.prems" by (simp add: checkSolution_loop_stop)
next
  case (Suc n)
  then have i: "i < int_to_size_t (getTestCount (getTestSuite task))" by simp
  have n: "n = int_to_size_t (getTestCount (getTestSuite task)) - Suc i"
    using Suc.hyps(2) by simp
  show ?case
  proof (cases "length (tests (testSuite task)) \<le> i")
    case True
    then show ?thesis by (simp add: checkSolution_loop_step [OF i])
  next
    case inrange: False
    show ?thesis
    proof (cases "deref w (tests (testSuite task) ! i)")
      case (Inl e)
      with inrange show ?thesis by (simp add: checkSolution_loop_step [OF i])
    next
      case (Inr t)
      show ?thesis
      proof (cases "length (results sub1) \<le> i")
        case True
        with inrange Inr Suc.prems show ?thesis by (simp add: checkSolution_loop_step [OF i])
      next
        case False
        have "results (sub1\<lparr>results := (results sub1)[i := verdict t]\<rparr>) =
              results (sub2\<lparr>results := (results sub2)[i := verdict t]\<rparr>)"
          using Suc.prems by simp
        from Suc.hyps(1) [OF n this] False inrange Inr Suc.prems show ?thesis
          by (simp add: checkSolution_loop_step [OF i])
      qed
    qed
  qed
qed

lemma checkSolution_length_error:
  "getTestCount (getTestSuite task) < 0 \<Longrightarrow> checkSolution sol task w = Inl LengthError"
  by (simp add: checkSolution_def Submission_ctor_def)

subsection \<open>The decimal rendering of an \<open>int\<close> determines it\<close>

lemma digit_char_inj:
  "a < 10 \<Longrightarrow> b < 10 \<Longrightarrow> (char_of (48 + a :: nat) :: char) = char_of (48 + b) \<Longrightarrow> a = b"
proof -
  assume a: "a < 10" and b: "b < 10" and e: "(char_of (48 + a) :: char) = char_of (48 + b)"
  from e have "(of_char (char_of (48 + a) :: char) :: nat) = of_char (char_of (48 + b) :: char)"
    by simp
  then have "(48 + a) mod 256 = (48 + b) mod 256" by (simp only: of_char_of)
  with a b show "a = b" by simp
qed

lemma digits_not_Nil: "digits n \<noteq> []"
  by (subst digits.simps) simp

lemma digits_range: "c \<in> set (digits n) \<Longrightarrow> \<exists>d < 10. c = char_of (48 + d :: nat)"
proof (induction n rule: digits.induct)
  case (1 n)
  show ?case
  proof (cases "n < 10")
    case True
    with "1.prems" have "c = char_of (48 + n)" by (subst (asm) digits.simps) simp
    with True show ?thesis by blast
  next
    case False
    with "1.prems" have "c \<in> set (digits (n div 10)) \<or> c = char_of (48 + n mod 10)"
      by (subst (asm) digits.simps) auto
    then show ?thesis
    proof
      assume "c \<in> set (digits (n div 10))"
      with "1.IH" False show ?thesis by blast
    next
      assume "c = char_of (48 + n mod 10)"
      moreover have "n mod 10 < 10" by simp
      ultimately show ?thesis by blast
    qed
  qed
qed

lemma digits_inj: "digits n = digits m \<Longrightarrow> n = m"
proof (induction n arbitrary: m rule: digits.induct)
  case (1 n)
  show ?case
  proof (cases "n < 10")
    case n: True
    then have dn: "digits n = [char_of (48 + n)]" by (subst digits.simps) simp
    show ?thesis
    proof (cases "m < 10")
      case True
      then have "digits m = [char_of (48 + m)]" by (subst digits.simps) simp
      with dn "1.prems" n True show ?thesis by (auto dest: digit_char_inj)
    next
      case False
      then have "digits m = digits (m div 10) @ [char_of (48 + m mod 10)]"
        by (subst digits.simps) simp
      with dn "1.prems" digits_not_Nil [of "m div 10"] show ?thesis by simp
    qed
  next
    case n: False
    then have dn: "digits n = digits (n div 10) @ [char_of (48 + n mod 10)]"
      by (subst digits.simps) simp
    show ?thesis
    proof (cases "m < 10")
      case True
      then have "digits m = [char_of (48 + m)]" by (subst digits.simps) simp
      with dn "1.prems" digits_not_Nil [of "n div 10"] show ?thesis by simp
    next
      case False
      then have "digits m = digits (m div 10) @ [char_of (48 + m mod 10)]"
        by (subst digits.simps) simp
      with dn "1.prems" have e: "digits (n div 10) = digits (m div 10)"
        and c: "(char_of (48 + n mod 10) :: char) = char_of (48 + m mod 10)"
        by simp_all
      from "1.IH" [OF n e] have "n div 10 = m div 10" .
      moreover from c have "n mod 10 = m mod 10" by (intro digit_char_inj) simp_all
      ultimately show ?thesis by (metis div_mult_mod_eq)
    qed
  qed
qed

lemma minus_not_digit: "CHR ''-'' \<notin> set (digits n)"
proof
  assume "CHR ''-'' \<in> set (digits n)"
  then obtain d :: nat where d: "d < 10" "CHR ''-'' = (char_of (48 + d) :: char)"
    using digits_range by blast
  then have "(of_char CHR ''-'' :: nat) = of_char (char_of (48 + d) :: char)" by simp
  then have "(45 :: nat) = (48 + d) mod 256" by (simp only: of_char_of) simp
  with d(1) show False by simp
qed

lemma show_int_inj: "inj show_int"
proof (rule injI)
  fix a b :: int
  assume e: "show_int a = show_int b"
  have hd: "\<And>n. hd (digits n) \<noteq> CHR ''-''"
    using minus_not_digit digits_not_Nil by (metis hd_in_set)
  show "a = b"
  proof (cases "a < 0"; cases "b < 0")
    assume "a < 0" "b < 0"
    with e have "digits (nat (- a)) = digits (nat (- b))" by (simp add: show_int_def)
    then have "nat (- a) = nat (- b)" by (rule digits_inj)
    with \<open>a < 0\<close> \<open>b < 0\<close> show ?thesis by simp
  next
    assume "a < 0" "\<not> b < 0"
    with e have "CHR ''-'' # digits (nat (- a)) = digits (nat b)" by (simp add: show_int_def)
    then have "hd (digits (nat b)) = CHR ''-''" by (metis list.sel(1))
    with hd show ?thesis by blast
  next
    assume "\<not> a < 0" "b < 0"
    with e have "digits (nat a) = CHR ''-'' # digits (nat (- b))" by (simp add: show_int_def)
    then have "hd (digits (nat a)) = CHR ''-''" by (metis list.sel(1))
    with hd show ?thesis by blast
  next
    assume "\<not> a < 0" "\<not> b < 0"
    with e have "digits (nat a) = digits (nat b)" by (simp add: show_int_def)
    then have "nat a = nat b" by (rule digits_inj)
    with \<open>\<not> a < 0\<close> \<open>\<not> b < 0\<close> show ?thesis by simp
  qed
qed

subsection \<open>What a run writes\<close>

lemma show_int_3: "show_int 3 = ''3''"
  by code_simp

lemma passes_simps:
  "passes (TestCase i e) = (i = e)"
  "passes (AdvancedTestCase i e l) = (i = e \<and> 2 < l)"
  by (simp_all add: passes_def initial_world_def TestCase_runTest_def AdvancedTestCase_runTest_def)

lemma fold_runTestCase:
  "fold (\<lambda>t v. snd (runTestCase sol t v)) objs w =
     w\<lparr>cout := cout w @ concat (map (\<lambda>t. emitted t @ emitted t) objs)\<rparr>"
  by (induction objs arbitrary: w) (simp_all add: runTestCase_verdict)

lemma length_emitted: "length (emitted t) = (if is_AdvancedTestCase t then 1 else 0)"
  by (cases t) (simp_all add: emitted_TestCase emitted_AdvancedTestCase)

lemma length_trace:
  "length (concat (map (\<lambda>t. emitted t @ emitted t) objs)) =
     2 * length (filter is_AdvancedTestCase objs)"
  by (induction objs) (simp_all add: length_emitted)

lemma example_task_submission:
  "checkSolution example_solution example_task example_world =
     Inr (\<lparr>solution = example_solution,
           results = [\<lparr>actualOutput = ''Passed'', isPassed = True\<rparr>,
                      \<lparr>actualOutput = ''Failed'', isPassed = False\<rparr>],
           totalPassed = 1\<rparr>,
          example_world)"
proof -
  have "contents example_world (tests (testSuite example_task)) =
          map Inr [TestCase ''input1'' ''input1'', TestCase ''input2'' ''expected2'']"
    by (simp add: contents_def example_world_def example_task_def lookup_def)
  from checkSolution_eq [OF this, of example_solution] show ?thesis
    by (simp add: verdict_eq passes_simps emitted_TestCase example_world_def)
qed

subsection \<open>Copying, assigning and destroying suites\<close>

lemma push_back_clones_frame:
  "push_back_clones ps ts w = Inr (r, w') \<Longrightarrow>
     totalTestSuitesCreated w' = totalTestSuitesCreated w \<and> cout w' = cout w
     \<and> (\<forall>p obj. deref w p = Inr obj \<longrightarrow> deref w' p = Inr obj)"
proof (induction ps arbitrary: ts w)
  case Nil
  then show ?case by simp
next
  case (Cons p ps)
  then obtain obj where d: "deref w p = Inr obj"
    by (auto split: sum.splits)
  let ?w = "w\<lparr>heap := heap w @ [Some obj]\<rparr>"
  from Cons.prems d have "push_back_clones ps (ts @ [Addr (length (heap w))]) ?w = Inr (r, w')"
    by (simp add: clone_new new_def)
  from Cons.IH [OF this] show ?case
    by (simp add: deref_append)
qed

lemma TestSuite_ctor_counter:
  "getTotalTestSuitesCreated (snd (TestSuite_ctor w)) = getTotalTestSuitesCreated w + 1"
  by (simp add: TestSuite_ctor_def getTotalTestSuitesCreated_def)

lemma TestSuite_copy_counter:
  "TestSuite_copy other w = Inr (s, w') \<Longrightarrow>
     getTotalTestSuitesCreated w' = getTotalTestSuitesCreated w"
  by (auto simp: TestSuite_copy_def getTotalTestSuitesCreated_def split: sum.splits
        dest: push_back_clones_frame)

lemma live_Addr: "live w p \<Longrightarrow> \<exists>a. p = Addr a \<and> a < length (heap w)"
  by (cases p) (simp_all add: lookup_def split: if_splits)

lemma copy_law_full:
  assumes "list_all (live w) (tests S)"
  shows "\<exists>S2 w'. TestSuite_copy S w = Inr (S2, w')
     \<and> getTestCount S2 = getTestCount S
     \<and> contents w' (getTests S2) = contents w (getTests S)
     \<and> contents w' (getTests S) = contents w (getTests S)
     \<and> set (getTests S2) \<inter> set (getTests S) = {}
     \<and> (\<exists>w''. TestSuite_dtor S2 w' = Inr w''
            \<and> contents w'' (getTests S) = contents w (getTests S))
     \<and> (\<forall>w''. TestSuite_dtor S w' = Inr w'' \<longrightarrow>
            contents w'' (getTests S2) = contents w (getTests S))
     \<and> (\<forall>a < length (heap w). lookup w' a = lookup w a)
     \<and> list_all (live w') (getTests S2)"
proof -
  from assms obtain objs where c: "contents w (tests S) = map Inr objs"
    by (auto simp: all_live_contents)
  then have len: "length (tests S) = length objs"
    by (metis contents_def length_map)
  let ?ps = "map Addr [length (heap w) ..< length (heap w) + length objs]"
  let ?S2 = "\<lparr>tests = ?ps\<rparr>"
  let ?w = "w\<lparr>heap := heap w @ map Some objs\<rparr>"
  have 1: "TestSuite_copy S w = Inr (?S2, ?w)" using c by (rule TestSuite_copy_eq)
  have 2: "getTestCount ?S2 = getTestCount S" using len by (simp add: getTestCount_def)
  have 3: "contents ?w ?ps = contents w (tests S)"
    using c by (simp add: contents_clones)
  have 4: "contents ?w (tests S) = contents w (tests S)"
    using c contents_append [OF c] by simp
  have 5: "set ?ps \<inter> set (tests S) = {}"
    using assms by (rule clones_fresh)
  have 7: "list_all (live ?w) ?ps"
    unfolding all_live_contents using 3 c by auto
  have "distinct ?ps" by (rule clones_distinct)
  from delete_tests_ok [OF this 7] obtain w'' where d: "delete_tests ?ps ?w = Inr w''" ..
  have "contents w'' (tests S) = contents ?w (tests S)"
    using d 5 by (intro delete_tests_contents) auto
  with d 4 have 8: "\<exists>w''. TestSuite_dtor ?S2 ?w = Inr w''
            \<and> contents w'' (getTests S) = contents w (getTests S)"
    by (simp add: TestSuite_dtor_def getTests_def)
  have 9: "\<forall>w''. TestSuite_dtor S ?w = Inr w'' \<longrightarrow>
            contents w'' (getTests ?S2) = contents w (getTests S)"
  proof (intro allI impI)
    fix w'' assume "TestSuite_dtor S ?w = Inr w''"
    then have "delete_tests (tests S) ?w = Inr w''" by (simp add: TestSuite_dtor_def)
    then have "contents w'' ?ps = contents ?w ?ps"
      using 5 by (rule delete_tests_contents)
    with 3 show "contents w'' (getTests ?S2) = contents w (getTests S)"
      by (simp add: getTests_def)
  qed
  have 10: "\<forall>a < length (heap w). lookup ?w a = lookup w a"
    by (simp add: lookup_append)
  from 1 2 3 4 5 7 8 9 10 show ?thesis
    by (simp add: getTests_def)
qed

lemma operator_assign_eq:
  "a \<noteq> b \<Longrightarrow>
   operator_assign (a, D) (b, S) w =
     (case TestSuite_dtor D w of Inl e \<Rightarrow> Inl e | Inr w1 \<Rightarrow> TestSuite_copy S w1)"
  by (simp add: operator_assign_def TestSuite_dtor_def TestSuite_copy_def split: sum.splits)

lemma assign_law:
  assumes ab: "a \<noteq> b"
    and dD: "distinct (tests D)" and lD: "list_all (live w) (tests D)"
    and lS: "list_all (live w) (tests S)"
    and dis: "set (tests D) \<inter> set (tests S) = {}"
  shows "\<exists>D2 w'. operator_assign (a, D) (b, S) w = Inr (D2, w')
     \<and> getTestCount D2 = getTestCount S
     \<and> contents w' (getTests D2) = contents w (getTests S)
     \<and> contents w' (getTests S) = contents w (getTests S)
     \<and> set (getTests D2) \<inter> set (getTests S) = {}
     \<and> list_all (\<lambda>p. \<not> live w' p) (getTests D)
     \<and> (\<exists>w''. TestSuite_dtor D2 w' = Inr w''
            \<and> contents w'' (getTests S) = contents w (getTests S))
     \<and> (\<forall>w''. TestSuite_dtor S w' = Inr w'' \<longrightarrow>
            contents w'' (getTests D2) = contents w (getTests S))"
proof -
  from delete_tests_ok [OF dD lD] obtain w1 where w1: "delete_tests (tests D) w = Inr w1" ..
  have cS: "contents w1 (tests S) = contents w (tests S)"
    using w1 dis by (intro delete_tests_contents) auto
  with lS have lS1: "list_all (live w1) (tests S)"
    by (simp add: all_live_contents)
  from copy_law_full [OF lS1] obtain S2 w2 where
    cp: "TestSuite_copy S w1 = Inr (S2, w2)"
    and n: "getTestCount S2 = getTestCount S"
    and c2: "contents w2 (getTests S2) = contents w1 (getTests S)"
    and c3: "contents w2 (getTests S) = contents w1 (getTests S)"
    and d2: "set (getTests S2) \<inter> set (getTests S) = {}"
    and k1: "\<exists>w''. TestSuite_dtor S2 w2 = Inr w''
            \<and> contents w'' (getTests S) = contents w1 (getTests S)"
    and k2: "\<forall>w''. TestSuite_dtor S w2 = Inr w'' \<longrightarrow>
            contents w'' (getTests S2) = contents w1 (getTests S)"
    and pre: "\<forall>a < length (heap w1). lookup w2 a = lookup w1 a"
    by blast
  have 1: "operator_assign (a, D) (b, S) w = Inr (S2, w2)"
    using ab w1 cp by (simp add: operator_assign_eq TestSuite_dtor_def)
  have 6: "list_all (\<lambda>p. \<not> live w2 p) (getTests D)"
    unfolding list_all_iff getTests_def
  proof
    fix p assume p: "p \<in> set (tests D)"
    with lD have "live w p" unfolding list_all_iff by blast
    then obtain x where x: "p = Addr x" "x < length (heap w)"
      using live_Addr by blast
    from delete_tests_fields [OF w1] x have "x < length (heap w1)" by simp
    with pre have "lookup w2 x = lookup w1 x" by blast
    moreover from delete_tests_freed [OF w1 p] x have "lookup w1 x = None" by simp
    ultimately show "\<not> live w2 p" using x by simp
  qed
  from 1 n c2 c3 d2 6 k1 k2 cS show ?thesis
    by (simp add: getTests_def)
qed

lemma operator_assign_frame:
  assumes "operator_assign this other w = Inr (r, w')"
    and "list_all (live w) qs" and "set qs \<inter> set (tests (snd this)) = {}"
  shows "contents w' qs = contents w qs"
proof (cases "fst this = fst other")
  case True
  with assms(1) show ?thesis by (simp add: operator_assign_def)
next
  case False
  with assms(1) obtain w1 ts where
    d: "delete_tests (tests (snd this)) w = Inr w1"
    and p: "push_back_clones (tests (snd other)) [] w1 = Inr (ts, w')"
    by (auto simp: operator_assign_def split: sum.splits)
  have c1: "contents w1 qs = contents w qs"
    using d assms(3) by (rule delete_tests_contents)
  from assms(2) obtain objs where o: "contents w qs = map Inr objs"
    by (auto simp: all_live_contents)
  have "contents w' qs = contents w1 qs"
  proof (rule contents_frame)
    fix q assume q: "q \<in> set qs"
    with assms(2) have "live w q" unfolding list_all_iff by blast
    then obtain obj where "deref w q = Inr obj" using live_deref by blast
    moreover have "deref w1 q = deref w q"
      using d q assms(3) by (intro delete_tests_frame) auto
    ultimately have "deref w1 q = Inr obj" by simp
    with push_back_clones_frame [OF p] show "deref w' q = deref w1 q" by simp
  qed
  with c1 show ?thesis by simp
qed

subsection \<open>What \<open>checkSolution\<close> leaves alone\<close>

lemma deref_heap: "heap w' = heap w \<Longrightarrow> deref w' p = deref w p"
  by (cases p) (simp_all add: lookup_def)

lemma checkSolution_loop_frame:
  "checkSolution_loop sol task i sub passed w = Inr (sub', passed', w') \<Longrightarrow>
     heap w' = heap w \<and> totalTestSuitesCreated w' = totalTestSuitesCreated w"
proof (induction "int_to_size_t (getTestCount (getTestSuite task)) - i"
         arbitrary: i sub passed w)
  case 0
  then have "\<not> i < int_to_size_t (getTestCount (getTestSuite task))" by simp
  with "0.prems" show ?case by (simp add: checkSolution_loop_stop)
next
  case (Suc n)
  then have i: "i < int_to_size_t (getTestCount (getTestSuite task))" by simp
  have n: "n = int_to_size_t (getTestCount (getTestSuite task)) - Suc i"
    using Suc.hyps(2) by simp
  from Suc.prems obtain t where
    "checkSolution_loop sol task (Suc i)
       (sub\<lparr>results := (results sub)[i := verdict t]\<rparr>)
       (if passes t then passed + 1 else passed)
       (w\<lparr>cout := cout w @ emitted t @ emitted t\<rparr>) = Inr (sub', passed', w')"
    by (auto simp: checkSolution_loop_step [OF i] split: if_splits sum.splits)
  from Suc.hyps(1) [OF n this] show ?case by simp
qed

lemma checkSolution_frame:
  "checkSolution sol task w = Inr (submission, w') \<Longrightarrow>
     heap w' = heap w \<and> totalTestSuitesCreated w' = totalTestSuitesCreated w"
  by (auto simp: checkSolution_def split: sum.splits dest: checkSolution_loop_frame)

lemma checkSolution_cout:
  assumes "contents w (tests (testSuite task)) = map Inr objs" and "length objs < 2 ^ 31"
  shows "\<exists>submission w'. checkSolution sol task w = Inr (submission, w')
     \<and> w' = fold (\<lambda>t v. snd (runTestCase sol t v)) objs w
     \<and> length (cout w') = length (cout w) + 2 * length (filter is_AdvancedTestCase objs)"
  using checkSolution_eq [OF assms, of sol]
  by (simp add: fold_runTestCase length_trace)

section \<open>Test cases: what \<open>runTest\<close> returns and writes\<close>

text \<open>
  C5. For every base test case, \<open>runTest\<close> returns true exactly when the input equals
  the expected output, and it has no side effect: the free store, the suite counter and
  the console are as before the call.
\<close>

theorem TestCase_runTest_pure:
  "runTest (TestCase i e) w = (i = e, w)"
  by (simp add: TestCase_runTest_def)

text \<open>
  C4. For every advanced test case, \<open>runTest\<close> returns true exactly when the input
  equals the expected output and the complexity level exceeds 2. One call writes exactly
  one line, which ends in the decimal complexity level, whatever the outcome; the line is
  written first, the base evaluation then runs in the world that has the line, and
  nothing else of the world changes. Different levels give different lines, since the
  decimal rendering is injective.
\<close>

theorem AdvancedTestCase_runTest_trace:
  "runTest (AdvancedTestCase i e l) w =
     ((i = e \<and> 2 < l),
      w\<lparr>cout := cout w @ [''Running advanced test with complexity level: '' @ show_int l]\<rparr>)
   \<and> runTest (AdvancedTestCase i e l) w =
       (fst (runTest (TestCase i e)
          (w\<lparr>cout := cout w @
               [''Running advanced test with complexity level: '' @ show_int l]\<rparr>)) \<and> 2 < l,
        snd (runTest (TestCase i e)
          (w\<lparr>cout := cout w @
               [''Running advanced test with complexity level: '' @ show_int l]\<rparr>)))
   \<and> length (cout (snd (runTest (AdvancedTestCase i e l) w))) = length (cout w) + 1
   \<and> inj show_int"
  by (simp add: AdvancedTestCase_runTest_def TestCase_runTest_def show_int_inj)

section \<open>Suites: the counter, deep and shallow copies\<close>

text \<open>
  C2. The counter is read after two suites are constructed and one of them is
  copy-constructed, in a process that has just started. The claim has the reading 3; the
  copy constructor leaves the counter alone, and the reading is 2.
\<close>

theorem copy_not_counted:
  "TestSuite_copy (fst (TestSuite_ctor initial_world))
     (snd (TestSuite_ctor (snd (TestSuite_ctor initial_world)))) =
     Inr (\<lparr>tests = []\<rparr>, initial_world\<lparr>totalTestSuitesCreated := 2\<rparr>)
   \<and> getTotalTestSuitesCreated (initial_world\<lparr>totalTestSuitesCreated := 2\<rparr>) = 2
   \<and> getTotalTestSuitesCreated initial_world = 0"
  by (simp add: TestSuite_copy_def TestSuite_ctor_def getTotalTestSuitesCreated_def
        initial_world_def)

text \<open>
  C6. The deep-copy law. Copy-constructing from a suite \<open>S\<close> whose pointers are live
  gives a suite with the same test count whose contents, read in the new world, are the
  contents of \<open>S\<close> (the same class and the same fields at every position); the two
  suites share no pointer, destroying the copy leaves the contents of \<open>S\<close> as they
  were, and destroying \<open>S\<close> leaves the contents of the copy. Copy-assigning \<open>S\<close> to
  a different suite \<open>D\<close> that owns its tests (live, distinct, none shared with \<open>S\<close>)
  gives the same, and none of the tests \<open>D\<close> had is live afterwards: the assignment is
  the destructor of \<open>D\<close> followed by the copy construction from \<open>S\<close>. Assigning a
  suite to itself returns the suite and the world unchanged.
\<close>

theorem deep_copy_law:
  "(list_all (live w) (getTests S) \<longrightarrow>
     (\<exists>S2 w'. TestSuite_copy S w = Inr (S2, w')
        \<and> getTestCount S2 = getTestCount S
        \<and> contents w' (getTests S2) = contents w (getTests S)
        \<and> contents w' (getTests S) = contents w (getTests S)
        \<and> set (getTests S2) \<inter> set (getTests S) = {}
        \<and> (\<exists>w''. TestSuite_dtor S2 w' = Inr w''
               \<and> contents w'' (getTests S) = contents w (getTests S))
        \<and> (\<forall>w''. TestSuite_dtor S w' = Inr w'' \<longrightarrow>
               contents w'' (getTests S2) = contents w (getTests S))))
   \<and> (a \<noteq> b \<and> distinct (getTests D) \<and> list_all (live w) (getTests D)
        \<and> list_all (live w) (getTests S) \<and> set (getTests D) \<inter> set (getTests S) = {} \<longrightarrow>
     (\<exists>D2 w'. operator_assign (a, D) (b, S) w = Inr (D2, w')
        \<and> getTestCount D2 = getTestCount S
        \<and> contents w' (getTests D2) = contents w (getTests S)
        \<and> contents w' (getTests S) = contents w (getTests S)
        \<and> set (getTests D2) \<inter> set (getTests S) = {}
        \<and> list_all (\<lambda>p. \<not> live w' p) (getTests D)
        \<and> (\<exists>w''. TestSuite_dtor D2 w' = Inr w''
               \<and> contents w'' (getTests S) = contents w (getTests S))
        \<and> (\<forall>w''. TestSuite_dtor S w' = Inr w'' \<longrightarrow>
               contents w'' (getTests D2) = contents w (getTests S))))
   \<and> (a \<noteq> b \<longrightarrow>
        operator_assign (a, D) (b, S) w =
          (case TestSuite_dtor D w of Inl e \<Rightarrow> Inl e | Inr w1 \<Rightarrow> TestSuite_copy S w1))
   \<and> operator_assign (a, D) (a, D) w = Inr (D, w)"
proof (intro conjI impI)
  assume "list_all (live w) (getTests S)"
  then have "list_all (live w) (tests S)" by (simp add: getTests_def)
  from copy_law_full [OF this]
  show "\<exists>S2 w'. TestSuite_copy S w = Inr (S2, w')
        \<and> getTestCount S2 = getTestCount S
        \<and> contents w' (getTests S2) = contents w (getTests S)
        \<and> contents w' (getTests S) = contents w (getTests S)
        \<and> set (getTests S2) \<inter> set (getTests S) = {}
        \<and> (\<exists>w''. TestSuite_dtor S2 w' = Inr w''
               \<and> contents w'' (getTests S) = contents w (getTests S))
        \<and> (\<forall>w''. TestSuite_dtor S w' = Inr w'' \<longrightarrow>
               contents w'' (getTests S2) = contents w (getTests S))"
    by blast
next
  assume "a \<noteq> b \<and> distinct (getTests D) \<and> list_all (live w) (getTests D)
        \<and> list_all (live w) (getTests S) \<and> set (getTests D) \<inter> set (getTests S) = {}"
  then have "a \<noteq> b" "distinct (tests D)" "list_all (live w) (tests D)"
    "list_all (live w) (tests S)" "set (tests D) \<inter> set (tests S) = {}"
    by (simp_all add: getTests_def)
  then show "\<exists>D2 w'. operator_assign (a, D) (b, S) w = Inr (D2, w')
        \<and> getTestCount D2 = getTestCount S
        \<and> contents w' (getTests D2) = contents w (getTests S)
        \<and> contents w' (getTests S) = contents w (getTests S)
        \<and> set (getTests D2) \<inter> set (getTests S) = {}
        \<and> list_all (\<lambda>p. \<not> live w' p) (getTests D)
        \<and> (\<exists>w''. TestSuite_dtor D2 w' = Inr w''
               \<and> contents w'' (getTests S) = contents w (getTests S))
        \<and> (\<forall>w''. TestSuite_dtor S w' = Inr w'' \<longrightarrow>
               contents w'' (getTests D2) = contents w (getTests S))"
    by (rule assign_law)
next
  assume "a \<noteq> b"
  then show "operator_assign (a, D) (b, S) w =
          (case TestSuite_dtor D w of Inl e \<Rightarrow> Inl e | Inr w1 \<Rightarrow> TestSuite_copy S w1)"
    by (rule operator_assign_eq)
next
  show "operator_assign (a, D) (a, D) w = Inr (D, w)"
    by (simp add: operator_assign_def)
qed

theorem deep_copy_law_witness:
  "list_all (live example_world) (getTests example_suite)
   \<and> (0::nat) \<noteq> 1 \<and> distinct (getTests \<lparr>tests = [Addr 2]\<rparr>)
   \<and> list_all (live example_world) (getTests \<lparr>tests = [Addr 2]\<rparr>)
   \<and> set (getTests \<lparr>tests = [Addr 2]\<rparr>) \<inter> set (getTests example_suite) = {}
   \<and> (\<exists>S2 w'. TestSuite_copy example_suite example_world = Inr (S2, w')
        \<and> getTestCount S2 = getTestCount example_suite
        \<and> contents w' (getTests S2) = contents example_world (getTests example_suite)
        \<and> set (getTests S2) \<inter> set (getTests example_suite) = {})
   \<and> (\<exists>D2 w'. operator_assign (0, \<lparr>tests = [Addr 2]\<rparr>) (1, example_suite) example_world =
          Inr (D2, w')
        \<and> getTestCount D2 = getTestCount example_suite
        \<and> contents w' (getTests D2) = contents example_world (getTests example_suite)
        \<and> list_all (\<lambda>p. \<not> live w' p) (getTests \<lparr>tests = [Addr 2]\<rparr>))"
proof -
  have h1: "list_all (live example_world) (getTests example_suite)"
    by (simp add: example_world_def example_suite_def getTests_def lookup_def)
  have h2: "(0::nat) \<noteq> 1 \<and> distinct (getTests \<lparr>tests = [Addr 2]\<rparr>)
     \<and> list_all (live example_world) (getTests \<lparr>tests = [Addr 2]\<rparr>)
     \<and> list_all (live example_world) (getTests example_suite)
     \<and> set (getTests \<lparr>tests = [Addr 2]\<rparr>) \<inter> set (getTests example_suite) = {}"
    by (simp add: example_world_def example_suite_def getTests_def lookup_def)
  from deep_copy_law [of example_world example_suite 0 1 "\<lparr>tests = [Addr 2]\<rparr>"] h1 h2
  show ?thesis by blast
qed

text \<open>
  C9. After \<open>shallowCopy\<close> the pointers of the receiving suite are the pointers of the
  other suite, in the same order: the same objects, not clones, in every world. The two
  suites share them, so destroying the receiving suite leaves no test of the other alive.
\<close>

theorem shallowCopy_aliases:
  "getTests (shallowCopy A B) = getTests B
   \<and> getTestCount (shallowCopy A B) = getTestCount B
   \<and> contents w (getTests (shallowCopy A B)) = contents w (getTests B)
   \<and> (\<forall>w'. TestSuite_dtor (shallowCopy A B) w = Inr w' \<longrightarrow>
         list_all (\<lambda>p. \<not> live w' p) (getTests B))"
  by (auto simp: shallowCopy_def getTests_def getTestCount_def TestSuite_dtor_def list_all_iff
        dest: delete_tests_freed simp del: live.simps)

theorem shallowCopy_aliases_witness:
  "TestSuite_dtor (shallowCopy \<lparr>tests = []\<rparr> example_suite) example_world =
     Inr (example_world\<lparr>heap := [None, None, Some (AdvancedTestCase ''x'' ''x'' 3)]\<rparr>)
   \<and> list_all (\<lambda>p. \<not> live (example_world\<lparr>heap := [None, None, Some (AdvancedTestCase ''x'' ''x'' 3)]\<rparr>) p)
        (getTests example_suite)"
proof -
  have e: "TestSuite_dtor (shallowCopy \<lparr>tests = []\<rparr> example_suite) example_world =
     Inr (example_world\<lparr>heap := [None, None, Some (AdvancedTestCase ''x'' ''x'' 3)]\<rparr>)"
    by (simp add: TestSuite_dtor_def shallowCopy_def example_suite_def example_world_def
          lookup_def)
  with shallowCopy_aliases [of "\<lparr>tests = []\<rparr>" example_suite example_world]
  show ?thesis by blast
qed

section \<open>Tasks\<close>

text \<open>
  C8. The constructor of \<open>Task\<close>, given a suite whose pointers are live, returns a
  task with the description given and a suite of its own: the contents are those of the
  original, through pointers the original does not have. What is done to the original
  afterwards does not reach the task: destroying the original or assigning to it leaves
  the contents of the task's suite as they are (\<open>addTest\<close> and \<open>shallowCopy\<close> on the
  original change its vector of pointers and nothing else). The accessors are functions
  of the task. Whenever \<open>checkSolution\<close> on the task returns, it leaves the free
  store, the counter and the contents of the task's suite unchanged, and it does return
  when the suite has fewer than \<open>2^31\<close> tests; the task itself is a value that
  \<open>checkSolution\<close> reads.
\<close>

theorem Task_owns_copy:
  "list_all (live w) (getTests suite) \<longrightarrow>
    (\<exists>task w1. Task_ctor desc suite w = Inr (task, w1)
       \<and> getDescription task = desc
       \<and> getTestCount (getTestSuite task) = getTestCount suite
       \<and> contents w1 (getTests (getTestSuite task)) = contents w (getTests suite)
       \<and> set (getTests (getTestSuite task)) \<inter> set (getTests suite) = {}
       \<and> (\<forall>w2. TestSuite_dtor suite w1 = Inr w2 \<longrightarrow>
             contents w2 (getTests (getTestSuite task)) =
             contents w1 (getTests (getTestSuite task)))
       \<and> (\<forall>a b other suite' w2.
             operator_assign (a, suite) (b, other) w1 = Inr (suite', w2) \<longrightarrow>
             contents w2 (getTests (getTestSuite task)) =
             contents w1 (getTests (getTestSuite task)))
       \<and> (\<forall>sol submission w2. checkSolution sol task w1 = Inr (submission, w2) \<longrightarrow>
             heap w2 = heap w1
             \<and> totalTestSuitesCreated w2 = totalTestSuitesCreated w1
             \<and> contents w2 (getTests (getTestSuite task)) =
               contents w1 (getTests (getTestSuite task)))
       \<and> (length (getTests suite) < 2 ^ 31 \<longrightarrow>
            (\<forall>sol. \<exists>submission w2. checkSolution sol task w1 = Inr (submission, w2)
               \<and> heap w2 = heap w1
               \<and> totalTestSuitesCreated w2 = totalTestSuitesCreated w1
               \<and> contents w2 (getTests (getTestSuite task)) =
                 contents w1 (getTests (getTestSuite task)))))"
proof
  assume "list_all (live w) (getTests suite)"
  then have l: "list_all (live w) (tests suite)" by (simp add: getTests_def)
  from copy_law_full [OF l] obtain S2 w1 where
    cp: "TestSuite_copy suite w = Inr (S2, w1)"
    and n: "getTestCount S2 = getTestCount suite"
    and c2: "contents w1 (getTests S2) = contents w (getTests suite)"
    and d2: "set (getTests S2) \<inter> set (getTests suite) = {}"
    and k2: "\<forall>w''. TestSuite_dtor suite w1 = Inr w'' \<longrightarrow>
            contents w'' (getTests S2) = contents w (getTests suite)"
    and l2: "list_all (live w1) (getTests S2)"
    by blast
  let ?task = "\<lparr>description = desc, testSuite = S2\<rparr>"
  have 1: "Task_ctor desc suite w = Inr (?task, w1)"
    using cp by (simp add: Task_ctor_def)
  have 2: "getDescription ?task = desc" "getTestSuite ?task = S2"
    by (simp_all add: getDescription_def getTestSuite_def)
  have 5: "\<forall>w2. TestSuite_dtor suite w1 = Inr w2 \<longrightarrow>
             contents w2 (getTests S2) = contents w1 (getTests S2)"
    using k2 c2 by simp
  have 6: "\<forall>a b other suite' w2.
             operator_assign (a, suite) (b, other) w1 = Inr (suite', w2) \<longrightarrow>
             contents w2 (getTests S2) = contents w1 (getTests S2)"
  proof (intro allI impI)
    fix a b other suite' w2
    assume "operator_assign (a, suite) (b, other) w1 = Inr (suite', w2)"
    from operator_assign_frame [OF this l2] d2
    show "contents w2 (getTests S2) = contents w1 (getTests S2)"
      by (simp add: getTests_def)
  qed
  have 7: "\<forall>sol submission w2. checkSolution sol ?task w1 = Inr (submission, w2) \<longrightarrow>
             heap w2 = heap w1
             \<and> totalTestSuitesCreated w2 = totalTestSuitesCreated w1
             \<and> contents w2 (getTests S2) = contents w1 (getTests S2)"
  proof (intro allI impI)
    fix sol submission w2
    assume "checkSolution sol ?task w1 = Inr (submission, w2)"
    from checkSolution_frame [OF this]
    have h: "heap w2 = heap w1"
      and t: "totalTestSuitesCreated w2 = totalTestSuitesCreated w1"
      by simp_all
    have "contents w2 (getTests S2) = contents w1 (getTests S2)"
      using deref_heap [OF h] by (simp add: contents_def)
    with h t show "heap w2 = heap w1
             \<and> totalTestSuitesCreated w2 = totalTestSuitesCreated w1
             \<and> contents w2 (getTests S2) = contents w1 (getTests S2)"
      by simp
  qed
  have 8: "length (getTests suite) < 2 ^ 31 \<longrightarrow>
            (\<forall>sol. \<exists>submission w2. checkSolution sol ?task w1 = Inr (submission, w2)
               \<and> heap w2 = heap w1
               \<and> totalTestSuitesCreated w2 = totalTestSuitesCreated w1
               \<and> contents w2 (getTests S2) = contents w1 (getTests S2))"
  proof (intro allI impI)
    fix sol
    assume b: "length (getTests suite) < 2 ^ 31"
    from l2 obtain objs where o: "contents w1 (tests (testSuite ?task)) = map Inr objs"
      by (auto simp: all_live_contents getTests_def)
    from o c2 have "length objs = length (getTests suite)"
      by (metis contents_def getTests_def length_map Task.select_convs(2))
    with b have "length objs < 2 ^ 31" by simp
    from checkSolution_eq [OF o this, of sol]
    show "\<exists>submission w2. checkSolution sol ?task w1 = Inr (submission, w2)
             \<and> heap w2 = heap w1
             \<and> totalTestSuitesCreated w2 = totalTestSuitesCreated w1
             \<and> contents w2 (getTests S2) = contents w1 (getTests S2)"
      by simp
  qed
  from 1 2 n c2 d2 5 6 7 8
  show "\<exists>task w1. Task_ctor desc suite w = Inr (task, w1)
       \<and> getDescription task = desc
       \<and> getTestCount (getTestSuite task) = getTestCount suite
       \<and> contents w1 (getTests (getTestSuite task)) = contents w (getTests suite)
       \<and> set (getTests (getTestSuite task)) \<inter> set (getTests suite) = {}
       \<and> (\<forall>w2. TestSuite_dtor suite w1 = Inr w2 \<longrightarrow>
             contents w2 (getTests (getTestSuite task)) =
             contents w1 (getTests (getTestSuite task)))
       \<and> (\<forall>a b other suite' w2.
             operator_assign (a, suite) (b, other) w1 = Inr (suite', w2) \<longrightarrow>
             contents w2 (getTests (getTestSuite task)) =
             contents w1 (getTests (getTestSuite task)))
       \<and> (\<forall>sol submission w2. checkSolution sol task w1 = Inr (submission, w2) \<longrightarrow>
             heap w2 = heap w1
             \<and> totalTestSuitesCreated w2 = totalTestSuitesCreated w1
             \<and> contents w2 (getTests (getTestSuite task)) =
               contents w1 (getTests (getTestSuite task)))
       \<and> (length (getTests suite) < 2 ^ 31 \<longrightarrow>
            (\<forall>sol. \<exists>submission w2. checkSolution sol task w1 = Inr (submission, w2)
               \<and> heap w2 = heap w1
               \<and> totalTestSuitesCreated w2 = totalTestSuitesCreated w1
               \<and> contents w2 (getTests (getTestSuite task)) =
                 contents w1 (getTests (getTestSuite task))))"
    by (intro exI [of _ ?task] exI [of _ w1]) simp
qed

theorem Task_owns_copy_witness:
  "list_all (live example_world) (getTests example_suite)
   \<and> length (getTests example_suite) < 2 ^ 31
   \<and> (\<exists>task w1. Task_ctor ''Example Task'' example_suite example_world = Inr (task, w1)
       \<and> getDescription task = ''Example Task''
       \<and> contents w1 (getTests (getTestSuite task)) =
         contents example_world (getTests example_suite)
       \<and> set (getTests (getTestSuite task)) \<inter> set (getTests example_suite) = {}
       \<and> (\<exists>submission w2. checkSolution example_solution task w1 = Inr (submission, w2)
             \<and> heap w2 = heap w1))"
proof -
  have h: "list_all (live example_world) (getTests example_suite)"
    by (simp add: example_world_def example_suite_def getTests_def lookup_def)
  have b: "length (getTests example_suite) < 2 ^ 31"
    by (simp add: example_suite_def getTests_def)
  from Task_owns_copy [of example_world example_suite "''Example Task''"] h b
  show ?thesis by blast
qed

section \<open>The runner: results and submissions\<close>

text \<open>
  C10. The result of \<open>runTestCase\<close> is consistent: its label is \<open>Passed\<close> exactly
  when its flag is true and \<open>Failed\<close> exactly when the flag is false. The label is
  set from the first call of \<open>runTest\<close> and the flag from the second; the second call
  returns what the first returned.
\<close>

theorem runTestCase_consistent:
  "(getActualOutput (fst (runTestCase sol t w)) = ''Passed'') = getIsPassed (fst (runTestCase sol t w))
   \<and> (getActualOutput (fst (runTestCase sol t w)) = ''Failed'') = (\<not> getIsPassed (fst (runTestCase sol t w)))
   \<and> fst (runTest t (snd (runTest t w))) = fst (runTest t w)
   \<and> getIsPassed (fst (runTestCase sol t w)) = fst (runTest t w)"
  by (simp add: runTestCase_eq runTest_eq getActualOutput_def getIsPassed_def)

text \<open>
  C7. The solution does not interfere. For every test case and any two solutions,
  \<open>runTestCase\<close> gives the same result (and the same world). For every task and any
  two solutions, \<open>checkSolution\<close> fails for both in the same way or returns for both,
  with the same sequence of results, the same \<open>totalPassed\<close> and the same world: the
  two submissions differ in nothing but the copy of the solution they hold.
\<close>

theorem solution_noninterference:
  "runTestCase s1 t w = runTestCase s2 t w \<and>
   map_sum id (\<lambda>(submission, w'). (getResults submission, getTotalPassed submission, w'))
     (checkSolution s1 task w) =
   map_sum id (\<lambda>(submission, w'). (getResults submission, getTotalPassed submission, w'))
     (checkSolution s2 task w)"
proof
  show "runTestCase s1 t w = runTestCase s2 t w"
    by (simp add: runTestCase_verdict)
next
  let ?n = "getTestCount (getTestSuite task)"
  let ?sub = "\<lambda>s. \<lparr>solution = s, results = replicate (int_to_size_t ?n) ExecutionResult_ctor,
                    totalPassed = 0\<rparr>"
  have "results (?sub s1) = results (?sub s2)" by simp
  from checkSolution_loop_solution [OF this, of s1 task 0 0 w s2]
  show "map_sum id (\<lambda>(submission, w'). (getResults submission, getTotalPassed submission, w'))
     (checkSolution s1 task w) =
   map_sum id (\<lambda>(submission, w'). (getResults submission, getTotalPassed submission, w'))
     (checkSolution s2 task w)"
    by (auto simp: checkSolution_def Submission_ctor_def getResults_def getTotalPassed_def
          setTotalPassed_def map_sum_def split: sum.splits)
qed

text \<open>
  C1. For every solution and every task whose suite holds pointers to existing test
  cases, fewer than \<open>2^31\<close> of them (the counts an \<^verbatim>\<open>int\<close> can hold),
  \<open>checkSolution\<close> returns a submission. It has as many results as the suite has
  tests; its \<open>totalPassed\<close> is the number of results whose flag is true; the result
  at index \<open>i\<close> is the result of \<open>runTestCase\<close> on the \<open>i\<close>-th test of the suite.
  For a suite without tests there is no result and \<open>totalPassed\<close> is 0.
\<close>

theorem checkSolution_submission:
  assumes "list_all (live w) (getTests (getTestSuite task))"
      and "length (getTests (getTestSuite task)) < 2 ^ 31"
  shows "\<exists>submission w'. checkSolution sol task w = Inr (submission, w')
     \<and> int (length (getResults submission)) = getTestCount (getTestSuite task)
     \<and> length (getResults submission) = length (getTests (getTestSuite task))
     \<and> getTotalPassed submission = int (length (filter getIsPassed (getResults submission)))
     \<and> (\<forall>i < length (getTests (getTestSuite task)).
          \<exists>test. deref w (getTests (getTestSuite task) ! i) = Inr test
            \<and> getResults submission ! i = fst (runTestCase sol test w))
     \<and> (getTests (getTestSuite task) = [] \<longrightarrow>
          getResults submission = [] \<and> getTotalPassed submission = 0)"
proof -
  from assms(1) obtain objs where c: "contents w (tests (testSuite task)) = map Inr objs"
    by (auto simp: all_live_contents getTests_def getTestSuite_def)
  then have len: "length (tests (testSuite task)) = length objs"
    by (metis contents_def length_map)
  with assms(2) have b: "length objs < 2 ^ 31"
    by (simp add: getTests_def getTestSuite_def)
  let ?sub = "\<lparr>solution = sol, results = map verdict objs,
           totalPassed = int (length (filter passes objs))\<rparr>"
  let ?w = "w\<lparr>cout := cout w @ concat (map (\<lambda>t. emitted t @ emitted t) objs)\<rparr>"
  have 1: "checkSolution sol task w = Inr (?sub, ?w)"
    using c b by (rule checkSolution_eq)
  have 2: "int (length (getResults ?sub)) = getTestCount (getTestSuite task)"
    using len b by (simp add: getResults_def getTestCount_small getTestSuite_def)
  have same_length: "length (getResults ?sub) = length (getTests (getTestSuite task))"
    using len by (simp add: getResults_def getTests_def getTestSuite_def)
  have "filter getIsPassed (map verdict objs) = map verdict (filter passes objs)"
    by (induction objs) (simp_all add: getIsPassed_def verdict_eq)
  then have 3: "getTotalPassed ?sub = int (length (filter getIsPassed (getResults ?sub)))"
    by (simp add: getTotalPassed_def getResults_def)
  have 4: "\<forall>i < length (getTests (getTestSuite task)).
          \<exists>test. deref w (getTests (getTestSuite task) ! i) = Inr test
            \<and> getResults ?sub ! i = fst (runTestCase sol test w)"
  proof (intro allI impI)
    fix i assume "i < length (getTests (getTestSuite task))"
    then have i: "i < length objs" using len by (simp add: getTests_def getTestSuite_def)
    from contents_nth(2) [OF c i] i
    show "\<exists>test. deref w (getTests (getTestSuite task) ! i) = Inr test
            \<and> getResults ?sub ! i = fst (runTestCase sol test w)"
      by (simp add: getTests_def getTestSuite_def getResults_def runTestCase_verdict)
  qed
  have 5: "getTests (getTestSuite task) = [] \<longrightarrow>
          getResults ?sub = [] \<and> getTotalPassed ?sub = 0"
    using len by (auto simp: getTests_def getTestSuite_def getResults_def getTotalPassed_def)
  from 1 2 same_length 3 4 5 show ?thesis by blast
qed

theorem checkSolution_submission_witness:
  "list_all (live example_world) (getTests (getTestSuite example_task))
   \<and> length (getTests (getTestSuite example_task)) < 2 ^ 31
   \<and> (\<exists>submission w'.
      checkSolution example_solution example_task example_world = Inr (submission, w')
      \<and> int (length (getResults submission)) = getTestCount (getTestSuite example_task)
      \<and> getTotalPassed submission = int (length (filter getIsPassed (getResults submission)))
      \<and> (\<forall>i < length (getTests (getTestSuite example_task)).
           \<exists>test. deref example_world (getTests (getTestSuite example_task) ! i) = Inr test
             \<and> getResults submission ! i = fst (runTestCase example_solution test example_world))
      \<and> (getTests (getTestSuite example_task) = [] \<longrightarrow>
           getResults submission = [] \<and> getTotalPassed submission = 0))"
proof -
  have h: "list_all (live example_world) (getTests (getTestSuite example_task))"
    by (simp add: example_world_def example_task_def getTests_def getTestSuite_def lookup_def)
  have b: "length (getTests (getTestSuite example_task)) < 2 ^ 31"
    by (simp add: example_task_def getTests_def getTestSuite_def)
  from h b checkSolution_submission [OF h b, of example_solution] show ?thesis by blast
qed

text \<open>
  C3. The claim has every test run once in a call of \<open>checkSolution\<close>, so that an
  advanced test case writes one line. \<open>runTestCase\<close> calls \<open>runTest\<close> on line 219
  and again on line 220: on a suite of one advanced test case, one call of
  \<open>checkSolution\<close> writes the line twice to a console that was empty.
\<close>

theorem advanced_test_traced_twice:
  "checkSolution example_solution advanced_task example_world =
     Inr (\<lparr>solution = example_solution,
           results = [\<lparr>actualOutput = ''Passed'', isPassed = True\<rparr>],
           totalPassed = 1\<rparr>,
          example_world\<lparr>cout :=
            [''Running advanced test with complexity level: 3'',
             ''Running advanced test with complexity level: 3'']\<rparr>)
   \<and> cout example_world = []"
proof -
  have "contents example_world (tests (testSuite advanced_task)) =
          map Inr [AdvancedTestCase ''x'' ''x'' 3]"
    by (simp add: contents_def example_world_def advanced_task_def lookup_def)
  from checkSolution_eq [OF this, of example_solution] show ?thesis
    by (simp add: verdict_eq passes_simps emitted_AdvancedTestCase show_int_3 example_world_def)
qed

end
